theory Spec2Isabelle
  imports Complex_Main "HOL-Library.Sublist" "HOL-Library.Multiset"
begin

section \<open>Values read from a YAML header\<close>

text \<open>
  The metadata of a document is whatever \<^verbatim>\<open>yaml.safe_load\<close> returns, so a field of a task
  is any YAML value (\<^verbatim>\<open>Dict[str, Any]\<close>). The builder uses three things of such a value: its
  truth value (\<^verbatim>\<open>not v\<close>), whether it can be a dictionary key or a set member (lists and
  mappings are unhashable and raise \<^verbatim>\<open>TypeError\<close>), and whether it is a string (only strings
  have \<^verbatim>\<open>startswith\<close>; on any other value the call raises \<^verbatim>\<open>AttributeError\<close>).
  Floating-point scalars and timestamps are left out of the value type.
\<close>

datatype yval =
    YNone
  | YBool bool
  | YInt int
  | YStr string
  | YList "yval list"
  | YDict "(yval \<times> yval) list"

datatype error = TypeError | AttributeError | ZeroDivisionError

text \<open>Python's truth value test.\<close>

fun py_truthy :: "yval \<Rightarrow> bool" where
  "py_truthy YNone = False"
| "py_truthy (YBool b) = b"
| "py_truthy (YInt i) = (i \<noteq> 0)"
| "py_truthy (YStr s) = (s \<noteq> [])"
| "py_truthy (YList xs) = (xs \<noteq> [])"
| "py_truthy (YDict kvs) = (kvs \<noteq> [])"

fun py_hashable :: "yval \<Rightarrow> bool" where
  "py_hashable (YList xs) = False"
| "py_hashable (YDict kvs) = False"
| "py_hashable v = True"

text \<open>
  Equality of dictionary keys and set members. It is only ever applied to hashable values
  (a lookup with an unhashable one raises before anything is compared); \<^verbatim>\<open>True == 1\<close> and
  \<^verbatim>\<open>False == 0\<close> hold in Python and the two have the same hash.
\<close>

fun py_eq :: "yval \<Rightarrow> yval \<Rightarrow> bool" where
  "py_eq YNone YNone = True"
| "py_eq (YBool a) (YBool b) = (a = b)"
| "py_eq (YBool a) (YInt j) = ((if a then 1 else 0) = j)"
| "py_eq (YInt i) (YBool b) = (i = (if b then 1 else 0))"
| "py_eq (YInt i) (YInt j) = (i = j)"
| "py_eq (YStr s) (YStr t) = (s = t)"
| "py_eq u v = False"

text \<open>\<^verbatim>\<open>d.get(key, default)\<close> on a dictionary with string keys.\<close>

definition dict_get :: "(string \<times> yval) list \<Rightarrow> string \<Rightarrow> yval \<Rightarrow> yval" where
  "dict_get d key dflt = (case map_of d key of None \<Rightarrow> dflt | Some v \<Rightarrow> v)"

section \<open>The records of the analysis\<close>

record FileAnalysis =
  filename :: string
  filepath :: string
  yaml_frontmatter :: "(string \<times> yval) list option"
  headers :: "string list"
  yaml_valid :: bool
  yaml_errors :: "string list"
  missing_required_fields :: "string list"

definition REQUIRED_YAML_FIELDS :: "string list" where
  "REQUIRED_YAML_FIELDS =
     [''phase'', ''step'', ''task'', ''task_id'', ''title'',
      ''previous_task'', ''next_task'', ''version'', ''agent'', ''orchestrator'']"

text \<open>\<^verbatim>\<open>not yaml_data\<close>: no header at all, or an empty mapping.\<close>

fun frontmatter_truthy :: "(string \<times> yval) list option \<Rightarrow> bool" where
  "frontmatter_truthy None = False"
| "frontmatter_truthy (Some d) = (d \<noteq> [])"

fun validate_yaml_fields :: "(string \<times> yval) list option \<Rightarrow> string list" where
  "validate_yaml_fields None = REQUIRED_YAML_FIELDS"
| "validate_yaml_fields (Some yaml_data) =
     (if yaml_data = [] then REQUIRED_YAML_FIELDS
      else filter (\<lambda>field. map_of yaml_data field = None \<or> map_of yaml_data field = Some YNone)
             REQUIRED_YAML_FIELDS)"

text \<open>
  \<^verbatim>\<open>analyze_file\<close> once the file has been read: \<open>extracted\<close> is the pair returned by
  \<^verbatim>\<open>extract_yaml_frontmatter\<close> (the parsed header, or \<open>None\<close> and the parse errors), and
  \<open>hs\<close> the headers found by \<^verbatim>\<open>extract_headers\<close>.
\<close>

definition analyze_file ::
  "string \<Rightarrow> string \<Rightarrow> (string \<times> yval) list option \<times> string list \<Rightarrow> string list \<Rightarrow> FileAnalysis" where
  "analyze_file name path extracted hs =
     (let yaml_data = fst extracted;
          yaml_errors = snd extracted;
          missing_fields = validate_yaml_fields yaml_data
      in \<lparr> filename = name,
           filepath = path,
           yaml_frontmatter = yaml_data,
           headers = hs,
           yaml_valid = (length yaml_errors = 0 \<and> length missing_fields = 0),
           yaml_errors = yaml_errors,
           missing_required_fields = missing_fields \<rparr>)"

record task_info =
  task_filename :: string
  task_id :: yval
  title :: yval
  phase :: yval
  step :: yval
  agent :: yval
  previous_task :: yval
  next_task :: yval
  valid :: bool

record workflow_stats =
  total_tasks :: nat
  connected_tasks :: nat
  orphaned_tasks :: nat
  phases_count :: nat
  valid_tasks :: nat
  completion_rate :: real

text \<open>
  The \<^verbatim>\<open>phases\<close> dictionary keeps its keys in insertion order, so it is an association list
  from the phase key to the tasks of that phase.
\<close>

type_synonym phase_groups = "(yval \<times> task_info list) list"

record workflow_data =
  phases :: phase_groups
  orphaned :: "task_info list"
  stats :: workflow_stats

section \<open>The workflow graph builder\<close>

text \<open>
  The dictionary literal \<^verbatim>\<open>task_info\<close> built for one file (its key \<^verbatim>\<open>filename\<close> is the
  field \<open>task_filename\<close>).
\<close>

definition mk_task_info :: "FileAnalysis \<Rightarrow> (string \<times> yval) list \<Rightarrow> task_info" where
  "mk_task_info file_data yaml_data =
     \<lparr> task_filename = filename file_data,
       task_id = dict_get yaml_data ''task_id'' (YStr ''Unknown''),
       title = dict_get yaml_data ''title'' (YStr ''Unknown''),
       phase = dict_get yaml_data ''phase'' (YStr ''Unknown''),
       step = dict_get yaml_data ''step'' (YStr ''Unknown''),
       agent = dict_get yaml_data ''agent'' (YStr ''Unknown''),
       previous_task = dict_get yaml_data ''previous_task'' YNone,
       next_task = dict_get yaml_data ''next_task'' YNone,
       valid = yaml_valid file_data \<rparr>"

text \<open>
  \<^verbatim>\<open>if phase not in phases: phases[phase] = []\<close> followed by
  \<^verbatim>\<open>phases[phase].append(task_info)\<close>: the task goes to the end of the group whose key
  equals the phase, and a new group is opened after the others when there is none.
\<close>

fun phases_append :: "phase_groups \<Rightarrow> yval \<Rightarrow> task_info \<Rightarrow> phase_groups" where
  "phases_append [] k t = [(k, [t])]"
| "phases_append ((k', ts) # ps) k t =
     (if py_eq k' k then (k', ts @ [t]) # ps else (k', ts) # phases_append ps k t)"

text \<open>
  The first loop, over \<^verbatim>\<open>files_data\<close>. Its state is the triple
  \<open>(phases, valid_tasks, connected_tasks)\<close>.
\<close>

fun process_files ::
  "FileAnalysis list \<Rightarrow> phase_groups \<times> nat \<times> nat \<Rightarrow> error + phase_groups \<times> nat \<times> nat" where
  "process_files [] st = Inr st"
| "process_files (file_data # files_data) (phs, valid_cnt, connected_cnt) =
     (if \<not> yaml_valid file_data \<or> \<not> frontmatter_truthy (yaml_frontmatter file_data)
      then process_files files_data (phs, valid_cnt, connected_cnt)
      else
        let task = mk_task_info file_data (the (yaml_frontmatter file_data));
            valid_cnt' = (if valid task then valid_cnt + 1 else valid_cnt);
            connected_cnt' =
              (if py_truthy (previous_task task) \<or> py_truthy (next_task task)
               then connected_cnt + 1 else connected_cnt)
        in if \<not> py_hashable (phase task) then Inl TypeError
           else process_files files_data
                  (phases_append phs (phase task) task, valid_cnt', connected_cnt'))"

text \<open>The tasks of all groups, in the order \<^verbatim>\<open>phases.values()\<close> is iterated.\<close>

definition all_tasks :: "phase_groups \<Rightarrow> task_info list" where
  "all_tasks phs = concat (map snd phs)"

text \<open>
  The set comprehension \<^verbatim>\<open>all_task_ids\<close>. The set is kept as the list of its members;
  only membership is ever asked of it.
\<close>

fun collect_task_ids :: "task_info list \<Rightarrow> error + yval list" where
  "collect_task_ids [] = Inr []"
| "collect_task_ids (task # tasks) =
     (if \<not> py_hashable (task_id task) then Inl TypeError
      else case collect_task_ids tasks of
             Inl e \<Rightarrow> Inl e
           | Inr ids \<Rightarrow> Inr (task_id task # ids))"

definition all_task_ids :: "phase_groups \<Rightarrow> error + yval list" where
  "all_task_ids phs = collect_task_ids (all_tasks phs)"

definition py_in :: "yval \<Rightarrow> yval list \<Rightarrow> bool" where
  "py_in v ids = list_ex (\<lambda>x. py_eq x v) ids"

text \<open>
  \<^verbatim>\<open>not r or r in all_task_ids or r.startswith(pre)\<close>, evaluated from left to right.
\<close>

definition ref_exists :: "string \<Rightarrow> yval list \<Rightarrow> yval \<Rightarrow> error + bool" where
  "ref_exists pre ids r =
     (if \<not> py_truthy r then Inr True
      else if \<not> py_hashable r then Inl TypeError
      else if py_in r ids then Inr True
      else case r of YStr s \<Rightarrow> Inr (prefix pre s) | _ \<Rightarrow> Inl AttributeError)"

definition prev_exists :: "yval list \<Rightarrow> task_info \<Rightarrow> error + bool" where
  "prev_exists ids task = ref_exists ''PHASE'' ids (previous_task task)"

definition next_exists :: "yval list \<Rightarrow> task_info \<Rightarrow> error + bool" where
  "next_exists ids task = ref_exists ''P'' ids (next_task task)"

text \<open>The second loop: the tasks appended to \<^verbatim>\<open>orphaned\<close>, in order.\<close>

fun find_orphaned :: "yval list \<Rightarrow> task_info list \<Rightarrow> error + task_info list" where
  "find_orphaned ids [] = Inr []"
| "find_orphaned ids (task # tasks) =
     (case prev_exists ids task of
        Inl e \<Rightarrow> Inl e
      | Inr pe \<Rightarrow>
          (case next_exists ids task of
             Inl e \<Rightarrow> Inl e
           | Inr ne \<Rightarrow>
               (case find_orphaned ids tasks of
                  Inl e \<Rightarrow> Inl e
                | Inr rest \<Rightarrow> Inr (if \<not> (pe \<and> ne) then task # rest else rest))))"

text \<open>Python's true division of two counts.\<close>

definition py_truediv :: "nat \<Rightarrow> nat \<Rightarrow> error + real" where
  "py_truediv a b = (if b = 0 then Inl ZeroDivisionError else Inr (real a / real b))"

definition compute_completion_rate :: "nat \<Rightarrow> nat \<Rightarrow> error + real" where
  "compute_completion_rate valid_cnt total_cnt =
     (if total_cnt > 0
      then (case py_truediv valid_cnt total_cnt of Inl e \<Rightarrow> Inl e | Inr q \<Rightarrow> Inr (q * 100))
      else Inr 0)"

definition build_workflow_data :: "FileAnalysis list \<Rightarrow> error + workflow_data" where
  "build_workflow_data files_data =
     (case process_files files_data ([], 0, 0) of
        Inl e \<Rightarrow> Inl e
      | Inr (phs, valid_cnt, connected_cnt) \<Rightarrow>
          (case all_task_ids phs of
             Inl e \<Rightarrow> Inl e
           | Inr ids \<Rightarrow>
               (case find_orphaned ids (all_tasks phs) of
                  Inl e \<Rightarrow> Inl e
                | Inr orph \<Rightarrow>
                    (let total_cnt = sum_list (map (\<lambda>g. length (snd g)) phs)
                     in case compute_completion_rate valid_cnt total_cnt of
                          Inl e \<Rightarrow> Inl e
                        | Inr rate \<Rightarrow>
                            Inr \<lparr> phases = phs,
                                  orphaned = orph,
                                  stats = \<lparr> total_tasks = total_cnt,
                                            connected_tasks = connected_cnt,
                                            orphaned_tasks = length orph,
                                            phases_count = length phs,
                                            valid_tasks = valid_cnt,
                                            completion_rate = rate \<rparr> \<rparr>))))"

section \<open>Notions used to state the properties\<close>

text \<open>
  A file passes the entry filter of the first loop when it is marked valid and its header is
  a non-empty mapping; \<open>task_of\<close> is the task built for such a file.
\<close>

definition admitted :: "FileAnalysis \<Rightarrow> bool" where
  "admitted fd = (yaml_valid fd \<and> frontmatter_truthy (yaml_frontmatter fd))"

definition task_of :: "FileAnalysis \<Rightarrow> task_info" where
  "task_of fd = mk_task_info fd (the (yaml_frontmatter fd))"

definition admitted_tasks :: "FileAnalysis list \<Rightarrow> task_info list" where
  "admitted_tasks fs = map task_of (filter admitted fs)"

text \<open>The test of line 432: a reference field is non-empty.\<close>

definition has_connection :: "task_info \<Rightarrow> bool" where
  "has_connection t = (py_truthy (previous_task t) \<or> py_truthy (next_task t))"

text \<open>A task is orphaned when one of the two checks of lines 447 and 448 is false.\<close>

definition is_orphan :: "yval list \<Rightarrow> task_info \<Rightarrow> bool" where
  "is_orphan ids t = (prev_exists ids t = Inr False \<or> next_exists ids t = Inr False)"

text \<open>
  The invariant of the \<^verbatim>\<open>phases\<close> dictionary: keys are hashable and pairwise different as
  dictionary keys, and every task sits under the key equal to its phase.
\<close>

fun groups_ok :: "phase_groups \<Rightarrow> bool" where
  "groups_ok [] = True"
| "groups_ok ((k, ts) # ps) =
     (py_hashable k \<and> list_all (\<lambda>t. py_eq k (phase t)) ts
      \<and> list_all (\<lambda>g. \<not> py_eq k (fst g)) ps \<and> groups_ok ps)"

text \<open>
  When the builder meets no exception. A reference is checked without one when it is
  empty, or when it can be hashed and is then a known identifier or a string (the only
  values with \<^verbatim>\<open>startswith\<close>); a task needs a phase and an identifier that can be hashed as
  well. The identifiers are those of the admitted files.
\<close>

fun is_str :: "yval \<Rightarrow> bool" where
  "is_str (YStr s) = True"
| "is_str v = False"

definition ref_checkable :: "yval list \<Rightarrow> yval \<Rightarrow> bool" where
  "ref_checkable ids r = (\<not> py_truthy r \<or> (py_hashable r \<and> (py_in r ids \<or> is_str r)))"

definition task_checkable :: "yval list \<Rightarrow> task_info \<Rightarrow> bool" where
  "task_checkable ids t =
     (py_hashable (phase t) \<and> py_hashable (task_id t)
      \<and> ref_checkable ids (previous_task t) \<and> ref_checkable ids (next_task t))"

definition checkable :: "FileAnalysis list \<Rightarrow> bool" where
  "checkable fs =
     list_all (task_checkable (map task_id (admitted_tasks fs))) (admitted_tasks fs)"

text \<open>Sample headers: one with the ten required fields, and files analysed from them.\<close>

definition complete_header :: "string \<Rightarrow> string \<Rightarrow> yval \<Rightarrow> yval \<Rightarrow> (string \<times> yval) list" where
  "complete_header tid ph pv nx =
     [(''phase'', YStr ph), (''step'', YStr ''1''), (''task'', YStr ''t''),
      (''task_id'', YStr tid), (''title'', YStr ''T''), (''previous_task'', pv),
      (''next_task'', nx), (''version'', YStr ''1''), (''agent'', YStr ''a''),
      (''orchestrator'', YStr ''o'')]"

definition file_of :: "string \<Rightarrow> (string \<times> yval) list \<Rightarrow> FileAnalysis" where
  "file_of name header = analyze_file name name (Some header, []) []"

definition sample_task :: "string \<Rightarrow> string \<Rightarrow> string \<Rightarrow> yval \<Rightarrow> yval \<Rightarrow> task_info" where
  "sample_task name tid ph pv nx =
     \<lparr> task_filename = name, task_id = YStr tid, title = YStr ''T'', phase = YStr ph,
       step = YStr ''1'', agent = YStr ''a'', previous_task = pv, next_task = nx,
       valid = True \<rparr>"

definition sample_files :: "FileAnalysis list" where
  "sample_files =
     [file_of ''a.md'' (complete_header ''T1'' ''1'' (YStr ''T99'') (YStr ''P5'')),
      file_of ''b.md'' (complete_header ''T2'' ''1'' (YStr ''T2'') (YStr ''T1'')),
      file_of ''c.md'' [(''task_id'', YStr ''T3''), (''phase'', YStr ''2'')],
      file_of ''d.md'' (complete_header ''T4'' ''2'' (YStr ''P5'') (YStr []))]"

definition sample_graph :: workflow_data where
  "sample_graph =
     \<lparr> phases =
         [(YStr ''1'', [sample_task ''a.md'' ''T1'' ''1'' (YStr ''T99'') (YStr ''P5''),
                        sample_task ''b.md'' ''T2'' ''1'' (YStr ''T2'') (YStr ''T1'')]),
          (YStr ''2'', [sample_task ''d.md'' ''T4'' ''2'' (YStr ''P5'') (YStr [])])],
       orphaned =
         [sample_task ''a.md'' ''T1'' ''1'' (YStr ''T99'') (YStr ''P5''),
          sample_task ''d.md'' ''T4'' ''2'' (YStr ''P5'') (YStr [])],
       stats = \<lparr> total_tasks = 3, connected_tasks = 3, orphaned_tasks = 2,
                   phases_count = 2, valid_tasks = 3, completion_rate = 100 \<rparr> \<rparr>"

text \<open>
  A file failed to parse when it carries no header record at all; \<open>header_field\<close> reads a
  key of the header of a file.
\<close>

definition parse_failed :: "FileAnalysis \<Rightarrow> bool" where
  "parse_failed fd = (yaml_frontmatter fd = None)"

definition header_field :: "FileAnalysis \<Rightarrow> string \<Rightarrow> yval option" where
  "header_field fd key = (case yaml_frontmatter fd of None \<Rightarrow> None | Some d \<Rightarrow> map_of d key)"

text \<open>
  Three more files: one whose header parses but lacks required fields, one with all fields
  and an empty string as phase, and a record marked valid whose header has no phase key
  (\<^verbatim>\<open>analyze_file\<close> never produces the last one, but the builder accepts it).
\<close>

definition short_file :: FileAnalysis where
  "short_file = file_of ''c.md'' [(''task_id'', YStr ''T3''), (''phase'', YStr ''2'')]"

definition empty_phase_file :: FileAnalysis where
  "empty_phase_file = file_of ''e.md'' (complete_header ''T5'' [] (YStr []) (YStr []))"

definition unphased_file :: FileAnalysis where
  "unphased_file =
     \<lparr> filename = ''u.md'', filepath = ''u.md'',
       yaml_frontmatter = Some [(''task_id'', YStr ''T6'')], headers = [],
       yaml_valid = True, yaml_errors = [], missing_required_fields = [] \<rparr>"

text \<open>
  Two more analysed files: one whose successor reference \<open>"X9"\<close> is no identifier and has
  no accepted prefix, and one whose phase is the empty list.
\<close>

definition dangling_next_file :: FileAnalysis where
  "dangling_next_file = file_of ''x.md'' (complete_header ''T7'' ''3'' (YStr []) (YStr ''X9''))"

definition dangling_next_graph :: workflow_data where
  "dangling_next_graph =
     \<lparr> phases = [(YStr ''3'', [sample_task ''x.md'' ''T7'' ''3'' (YStr []) (YStr ''X9'')])],
       orphaned = [sample_task ''x.md'' ''T7'' ''3'' (YStr []) (YStr ''X9'')],
       stats = \<lparr> total_tasks = 1, connected_tasks = 1, orphaned_tasks = 1,
                   phases_count = 1, valid_tasks = 1, completion_rate = 100 \<rparr> \<rparr>"

definition list_phase_file :: FileAnalysis where
  "list_phase_file =
     file_of ''l.md''
       [(''phase'', YList []), (''step'', YStr ''1''), (''task'', YStr ''t''),
        (''task_id'', YStr ''T8''), (''title'', YStr ''T''), (''previous_task'', YStr []),
        (''next_task'', YStr []), (''version'', YStr ''1''), (''agent'', YStr ''a''),
        (''orchestrator'', YStr ''o'')]"

section \<open>Facts about the builder\<close>

subsection \<open>Equality of keys\<close>

lemma py_eq_hashable: "py_eq u v \<Longrightarrow> py_hashable u \<and> py_hashable v"
  by (cases u; cases v) auto

lemma py_eq_refl: "py_hashable v \<Longrightarrow> py_eq v v"
  by (cases v) auto

lemma py_eq_sym: "py_eq u v \<Longrightarrow> py_eq v u"
  by (cases u; cases v) (auto split: if_splits)

lemma py_eq_trans: "py_eq u v \<Longrightarrow> py_eq v w \<Longrightarrow> py_eq u w"
  by (cases u; cases v; cases w) (auto split: if_splits)

lemma py_eq_YStr: "py_eq k (YStr s) \<longleftrightarrow> k = YStr s"
  by (cases k) auto

lemma all_tasks_simps [simp]:
  "all_tasks [] = []" "all_tasks ((k, ts) # ps) = ts @ all_tasks ps"
  by (simp_all add: all_tasks_def)

lemma mset_phases_append:
  "mset (all_tasks (phases_append ps k t)) = add_mset t (mset (all_tasks ps))"
  by (induction ps k t rule: phases_append.induct) auto

lemma total_phases_append:
  "sum_list (map (\<lambda>g. length (snd g)) (phases_append ps k t)) =
     Suc (sum_list (map (\<lambda>g. length (snd g)) ps))"
  by (induction ps k t rule: phases_append.induct) auto

lemma total_eq_length: "sum_list (map (\<lambda>g. length (snd g)) ps) = length (all_tasks ps)"
  by (induction ps) auto

lemma keys_phases_append:
  "list_all (\<lambda>g. \<not> py_eq k' (fst g)) ps \<Longrightarrow> \<not> py_eq k' k \<Longrightarrow>
     list_all (\<lambda>g. \<not> py_eq k' (fst g)) (phases_append ps k t)"
  by (induction ps k t rule: phases_append.induct) auto

lemma groups_ok_phases_append:
  "groups_ok ps \<Longrightarrow> py_hashable k \<Longrightarrow> k = phase t \<Longrightarrow> groups_ok (phases_append ps k t)"
proof (induction ps k t rule: phases_append.induct)
  case (1 k t)
  then show ?case by (simp add: py_eq_refl)
next
  case (2 k' ts ps k t)
  then show ?case by (auto simp: keys_phases_append)
qed

lemma process_files_skip:
  "\<not> admitted fd \<Longrightarrow> process_files (fd # fs) st = process_files fs st"
  by (cases st) (auto simp: admitted_def)

lemma process_files_admit:
  "admitted fd \<Longrightarrow> process_files (fd # fs) (ps, v, c) =
     (if \<not> py_hashable (phase (task_of fd)) then Inl TypeError
      else process_files fs (phases_append ps (phase (task_of fd)) (task_of fd), Suc v,
             if has_connection (task_of fd) then Suc c else c))"
  by (auto simp: admitted_def task_of_def Let_def has_connection_def mk_task_info_def)

lemma process_files_Nil: "process_files [] st = Inr st"
  by simp

declare process_files.simps [simp del]

lemma process_files_filter: "process_files (filter admitted fs) st = process_files fs st"
proof (induction fs arbitrary: st)
  case Nil
  show ?case by (simp add: process_files_Nil)
next
  case (Cons fd fs)
  show ?case
  proof (cases "admitted fd")
    case True
    obtain ps v c where st: "st = (ps, v, c)" by (cases st) auto
    show ?thesis using True Cons.IH by (simp add: st process_files_admit)
  next
    case False
    then show ?thesis using Cons.IH by (simp add: process_files_skip)
  qed
qed

lemma process_files_inv:
  "process_files fs (ps, v, c) = Inr (ps', v', c') \<Longrightarrow>
     mset (all_tasks ps') = mset (all_tasks ps) + mset (admitted_tasks fs)
     \<and> v' = v + length (admitted_tasks fs)
     \<and> c' = c + length (filter has_connection (admitted_tasks fs))
     \<and> (groups_ok ps \<longrightarrow> groups_ok ps')"
proof (induction fs arbitrary: ps v c)
  case Nil
  then show ?case by (simp add: admitted_tasks_def process_files_Nil)
next
  case (Cons fd fs)
  show ?case
  proof (cases "admitted fd")
    case False
    with Cons.prems have "process_files fs (ps, v, c) = Inr (ps', v', c')"
      by (simp add: process_files_skip)
    from Cons.IH [OF this] False show ?thesis by (simp add: admitted_tasks_def)
  next
    case True
    let ?t = "task_of fd"
    from Cons.prems True have h: "py_hashable (phase ?t)"
      and run: "process_files fs (phases_append ps (phase ?t) ?t, Suc v,
                  if has_connection ?t then Suc c else c) = Inr (ps', v', c')"
      by (auto simp: process_files_admit split: if_splits)
    from Cons.IH [OF run] True h show ?thesis
      by (auto simp: admitted_tasks_def mset_phases_append groups_ok_phases_append)
  qed
qed

subsection \<open>The resolution pass and the statistics\<close>

lemma collect_task_ids_Inr:
  "collect_task_ids ts = Inr ids \<Longrightarrow> ids = map task_id ts \<and> list_all (\<lambda>t. py_hashable (task_id t)) ts"
  by (induction ts arbitrary: ids) (auto split: if_splits sum.splits)

lemma collect_task_ids_total:
  "list_all (\<lambda>t. py_hashable (task_id t)) ts \<Longrightarrow> collect_task_ids ts = Inr (map task_id ts)"
  by (induction ts) auto

lemma find_orphaned_Inr:
  "find_orphaned ids ts = Inr os \<Longrightarrow>
     os = filter (is_orphan ids) ts
     \<and> list_all (\<lambda>t. (\<exists>pe. prev_exists ids t = Inr pe) \<and> (\<exists>ne. next_exists ids t = Inr ne)) ts"
  by (induction ts arbitrary: os) (auto simp: is_orphan_def split: sum.splits if_splits)

lemma ref_exists_total: "ref_checkable ids r \<Longrightarrow> \<exists>b. ref_exists pre ids r = Inr b"
  by (cases r) (auto simp: ref_checkable_def ref_exists_def)

lemma ref_exists_checkable: "ref_exists pre ids r = Inr b \<Longrightarrow> ref_checkable ids r"
  by (cases r) (auto simp: ref_checkable_def ref_exists_def split: if_splits)

lemma ref_exists_value:
  "ref_exists pre ids r = Inr b \<Longrightarrow>
     b = (\<not> py_truthy r \<or> py_in r ids \<or> (\<exists>s. r = YStr s \<and> prefix pre s))"
  by (cases r) (auto simp: ref_exists_def split: if_splits)

lemma find_orphaned_total:
  "list_all (\<lambda>t. ref_checkable ids (previous_task t) \<and> ref_checkable ids (next_task t)) ts \<Longrightarrow>
     \<exists>os. find_orphaned ids ts = Inr os"
proof (induction ts)
  case Nil
  show ?case by simp
next
  case (Cons t ts)
  then obtain os where os: "find_orphaned ids ts = Inr os" by auto
  from Cons.prems obtain pe ne where "prev_exists ids t = Inr pe" "next_exists ids t = Inr ne"
    using ref_exists_total [of ids "previous_task t" "''PHASE''"]
          ref_exists_total [of ids "next_task t" "''P''"]
    by (auto simp: prev_exists_def next_exists_def)
  with os show ?case by simp
qed

lemma compute_completion_rate_Inr:
  "compute_completion_rate v n = Inr (if n > 0 then real v / real n * 100 else 0)"
  by (simp add: compute_completion_rate_def py_truediv_def)

lemma build_workflow_data_Inr:
  assumes "build_workflow_data fs = Inr g"
  shows "\<exists>v c ids.
           process_files fs ([], 0, 0) = Inr (phases g, v, c)
           \<and> all_task_ids (phases g) = Inr ids
           \<and> find_orphaned ids (all_tasks (phases g)) = Inr (orphaned g)
           \<and> stats g = \<lparr> total_tasks = sum_list (map (\<lambda>g. length (snd g)) (phases g)),
                          connected_tasks = c,
                          orphaned_tasks = length (orphaned g),
                          phases_count = length (phases g),
                          valid_tasks = v,
                          completion_rate =
                            (if sum_list (map (\<lambda>g. length (snd g)) (phases g)) > 0
                             then real v / real (sum_list (map (\<lambda>g. length (snd g)) (phases g))) * 100
                             else 0) \<rparr>"
  using assms
  by (auto simp: build_workflow_data_def compute_completion_rate_Inr Let_def
           split: sum.splits prod.splits)

lemma groups_ok_unique:
  "groups_ok ps \<Longrightarrow> (k1, ts1) \<in> set ps \<Longrightarrow> (k2, ts2) \<in> set ps \<Longrightarrow> py_eq k1 k2 \<Longrightarrow>
     (k1, ts1) = (k2, ts2)"
proof (induction ps)
  case Nil
  then show ?case by simp
next
  case (Cons p ps)
  obtain k ts where p: "p = (k, ts)" by (cases p)
  from Cons.prems(1) have sep: "list_all (\<lambda>g. \<not> py_eq k (fst g)) ps" and ok: "groups_ok ps"
    by (simp_all add: p)
  show ?case
  proof (cases "(k1, ts1) = p")
    case True
    show ?thesis
    proof (cases "(k2, ts2) = p")
      case True
      with \<open>(k1, ts1) = p\<close> show ?thesis by simp
    next
      case False
      with Cons.prems(3) have "(k2, ts2) \<in> set ps" by simp
      with sep have "\<not> py_eq k k2" by (auto simp: list_all_iff)
      with True p Cons.prems(4) show ?thesis by simp
    qed
  next
    case False
    with Cons.prems(2) have in1: "(k1, ts1) \<in> set ps" by simp
    show ?thesis
    proof (cases "(k2, ts2) = p")
      case True
      from in1 sep have "\<not> py_eq k k1" by (auto simp: list_all_iff)
      with True p Cons.prems(4) show ?thesis by (auto dest: py_eq_sym)
    next
      case False
      with Cons.prems(3) have "(k2, ts2) \<in> set ps" by simp
      from Cons.IH [OF ok in1 this Cons.prems(4)] show ?thesis .
    qed
  qed
qed

lemma groups_ok_key:
  "groups_ok ps \<Longrightarrow> (k, ts) \<in> set ps \<Longrightarrow> t \<in> set ts \<Longrightarrow> py_eq k (phase t)"
  by (induction ps) (auto simp: list_all_iff)

lemma groups_ok_distinct: "groups_ok ps \<Longrightarrow> distinct (map fst ps)"
proof (induction ps)
  case Nil
  show ?case by simp
next
  case (Cons p ps)
  obtain k ts where p: "p = (k, ts)" by (cases p)
  from Cons.prems have "py_hashable k" "list_all (\<lambda>g. \<not> py_eq k (fst g)) ps" "groups_ok ps"
    by (simp_all add: p)
  moreover have "k \<notin> fst ` set ps"
  proof
    assume "k \<in> fst ` set ps"
    then obtain g where "g \<in> set ps" "fst g = k" by auto
    with calculation(1,2) show False by (auto simp: list_all_iff py_eq_refl)
  qed
  ultimately show ?case using Cons.IH by (simp add: p)
qed

lemma in_all_tasks: "t \<in> set (all_tasks ps) \<longleftrightarrow> (\<exists>g \<in> set ps. t \<in> set (snd g))"
  by (auto simp: all_tasks_def)

subsection \<open>What a returned graph satisfies\<close>

lemma valid_task_of: "admitted fd \<Longrightarrow> valid (task_of fd)"
  by (simp add: admitted_def task_of_def mk_task_info_def)

lemma build_groups:
  assumes "build_workflow_data fs = Inr g"
  shows "mset (all_tasks (phases g)) = mset (admitted_tasks fs)" and "groups_ok (phases g)"
proof -
  from build_workflow_data_Inr [OF assms] obtain v c where
    "process_files fs ([], 0, 0) = Inr (phases g, v, c)" by blast
  from process_files_inv [OF this]
  show "mset (all_tasks (phases g)) = mset (admitted_tasks fs)" and "groups_ok (phases g)"
    by simp_all
qed

lemma build_ids:
  assumes "build_workflow_data fs = Inr g"
  shows "all_task_ids (phases g) = Inr (map task_id (all_tasks (phases g)))"
    and "list_all (\<lambda>t. py_hashable (task_id t)) (all_tasks (phases g))"
proof -
  from build_workflow_data_Inr [OF assms] obtain ids where
    "all_task_ids (phases g) = Inr ids" by blast
  then have c: "collect_task_ids (all_tasks (phases g)) = Inr ids" by (simp add: all_task_ids_def)
  from collect_task_ids_Inr [OF c] c
  show "all_task_ids (phases g) = Inr (map task_id (all_tasks (phases g)))"
    and "list_all (\<lambda>t. py_hashable (task_id t)) (all_tasks (phases g))"
    by (simp_all add: all_task_ids_def)
qed

lemma build_orphaned:
  assumes "build_workflow_data fs = Inr g"
  shows "orphaned g = filter (is_orphan (map task_id (all_tasks (phases g)))) (all_tasks (phases g))"
    and "list_all (\<lambda>t. (\<exists>pe. prev_exists (map task_id (all_tasks (phases g))) t = Inr pe)
                      \<and> (\<exists>ne. next_exists (map task_id (all_tasks (phases g))) t = Inr ne))
           (all_tasks (phases g))"
proof -
  from build_workflow_data_Inr [OF assms] obtain ids where
    i: "all_task_ids (phases g) = Inr ids"
    and f: "find_orphaned ids (all_tasks (phases g)) = Inr (orphaned g)" by blast
  from i build_ids(1) [OF assms] have "ids = map task_id (all_tasks (phases g))" by simp
  with find_orphaned_Inr [OF f]
  show "orphaned g = filter (is_orphan (map task_id (all_tasks (phases g)))) (all_tasks (phases g))"
    and "list_all (\<lambda>t. (\<exists>pe. prev_exists (map task_id (all_tasks (phases g))) t = Inr pe)
                      \<and> (\<exists>ne. next_exists (map task_id (all_tasks (phases g))) t = Inr ne))
           (all_tasks (phases g))"
    by simp_all
qed

lemma build_stats:
  assumes "build_workflow_data fs = Inr g"
  shows "total_tasks (stats g) = sum_list (map (\<lambda>p. length (snd p)) (phases g))"
    and "total_tasks (stats g) = length (filter admitted fs)"
    and "valid_tasks (stats g) = length (filter admitted fs)"
    and "connected_tasks (stats g) = length (filter has_connection (admitted_tasks fs))"
    and "orphaned_tasks (stats g) = length (orphaned g)"
    and "phases_count (stats g) = length (phases g)"
    and "completion_rate (stats g) =
           (if total_tasks (stats g) > 0
            then real (valid_tasks (stats g)) / real (total_tasks (stats g)) * 100 else 0)"
proof -
  from build_workflow_data_Inr [OF assms] obtain v c where
    p: "process_files fs ([], 0, 0) = Inr (phases g, v, c)"
    and s: "stats g = \<lparr> total_tasks = sum_list (map (\<lambda>g. length (snd g)) (phases g)),
                          connected_tasks = c,
                          orphaned_tasks = length (orphaned g),
                          phases_count = length (phases g),
                          valid_tasks = v,
                          completion_rate =
                            (if sum_list (map (\<lambda>g. length (snd g)) (phases g)) > 0
                             then real v / real (sum_list (map (\<lambda>g. length (snd g)) (phases g))) * 100
                             else 0) \<rparr>"
    by blast
  from process_files_inv [OF p]
  have m: "mset (all_tasks (phases g)) = mset (admitted_tasks fs)"
    and v: "v = length (admitted_tasks fs)"
    and c: "c = length (filter has_connection (admitted_tasks fs))"
    by simp_all
  from mset_eq_length [OF m]
  have l: "length (all_tasks (phases g)) = length (filter admitted fs)"
    by (simp add: admitted_tasks_def)
  show "total_tasks (stats g) = sum_list (map (\<lambda>p. length (snd p)) (phases g))"
    by (simp add: s)
  show "total_tasks (stats g) = length (filter admitted fs)"
    by (simp add: s total_eq_length l)
  show "valid_tasks (stats g) = length (filter admitted fs)"
    by (simp add: s v admitted_tasks_def)
  show "connected_tasks (stats g) = length (filter has_connection (admitted_tasks fs))"
    by (simp add: s c)
  show "orphaned_tasks (stats g) = length (orphaned g)" by (simp add: s)
  show "phases_count (stats g) = length (phases g)" by (simp add: s)
  show "completion_rate (stats g) =
           (if total_tasks (stats g) > 0
            then real (valid_tasks (stats g)) / real (total_tasks (stats g)) * 100 else 0)"
    by (simp add: s)
qed

lemma filter_length_mset:
  "mset xs = mset ys \<Longrightarrow> length (filter P xs) = length (filter P ys)"
proof -
  assume "mset xs = mset ys"
  then have "mset (filter P xs) = mset (filter P ys)" by simp
  then show ?thesis by (rule mset_eq_length)
qed

lemma build_unique_group:
  assumes "build_workflow_data fs = Inr g" and "t \<in> set (all_tasks (phases g))"
  shows "\<exists>!grp. grp \<in> set (phases g) \<and> t \<in> set (snd grp)"
proof -
  have ok: "groups_ok (phases g)" by (rule build_groups(2) [OF assms(1)])
  from assms(2) obtain grp where grp: "grp \<in> set (phases g)" "t \<in> set (snd grp)"
    by (auto simp: in_all_tasks)
  show ?thesis
  proof (rule ex1I [of _ grp])
    show "grp \<in> set (phases g) \<and> t \<in> set (snd grp)" using grp by simp
  next
    fix h assume h: "h \<in> set (phases g) \<and> t \<in> set (snd h)"
    obtain k1 ts1 where g1: "grp = (k1, ts1)" by (cases grp)
    obtain k2 ts2 where h2: "h = (k2, ts2)" by (cases h)
    from groups_ok_key [OF ok] grp g1 have e1: "py_eq k1 (phase t)" by auto
    from groups_ok_key [OF ok] h h2 have e2: "py_eq k2 (phase t)" by auto
    from e1 e2 have "py_eq k2 k1" by (blast intro: py_eq_trans py_eq_sym)
    from groups_ok_unique [OF ok _ _ this, of ts2 ts1] h grp g1 h2
    show "h = grp" by simp
  qed
qed

subsection \<open>When the builder returns, and how it can fail\<close>

lemma process_files_total:
  "list_all (\<lambda>fd. admitted fd \<longrightarrow> py_hashable (phase (task_of fd))) fs \<Longrightarrow>
     \<exists>r. process_files fs st = Inr r"
proof (induction fs arbitrary: st)
  case Nil
  show ?case by (cases st) (simp add: process_files_Nil)
next
  case (Cons fd fs)
  obtain ps v c where st: "st = (ps, v, c)" by (cases st) auto
  from Cons.prems have rest: "list_all (\<lambda>fd. admitted fd \<longrightarrow> py_hashable (phase (task_of fd))) fs"
    by simp
  show ?case
  proof (cases "admitted fd")
    case True
    with Cons.prems have "py_hashable (phase (task_of fd))" by simp
    with True Cons.IH [OF rest] show ?thesis by (simp add: st process_files_admit)
  next
    case False
    with Cons.IH [OF rest] show ?thesis by (simp add: process_files_skip)
  qed
qed

lemma process_files_error: "process_files fs st = Inl e \<Longrightarrow> e = TypeError"
proof (induction fs arbitrary: st)
  case Nil
  then show ?case by (simp add: process_files_Nil)
next
  case (Cons fd fs)
  obtain ps v c where st: "st = (ps, v, c)" by (cases st) auto
  show ?case
  proof (cases "admitted fd")
    case True
    with Cons show ?thesis by (auto simp: st process_files_admit split: if_splits)
  next
    case False
    with Cons show ?thesis by (simp add: process_files_skip)
  qed
qed

lemma collect_task_ids_error: "collect_task_ids ts = Inl e \<Longrightarrow> e = TypeError"
  by (induction ts) (auto split: if_splits sum.splits)

lemma ref_exists_error: "ref_exists pre ids r = Inl e \<Longrightarrow> e \<noteq> ZeroDivisionError"
  by (auto simp: ref_exists_def split: if_splits yval.splits)

lemma find_orphaned_error: "find_orphaned ids ts = Inl e \<Longrightarrow> e \<noteq> ZeroDivisionError"
  by (induction ts)
     (auto simp: prev_exists_def next_exists_def split: sum.splits dest: ref_exists_error)

lemma build_workflow_data_error: "build_workflow_data fs = Inl e \<Longrightarrow> e \<noteq> ZeroDivisionError"
  by (auto simp: build_workflow_data_def compute_completion_rate_Inr Let_def
           split: sum.splits prod.splits
           dest: process_files_error collect_task_ids_error find_orphaned_error
           simp: all_task_ids_def)

lemma py_in_cong: "set ids = set ids' \<Longrightarrow> py_in r ids = py_in r ids'"
  by (simp add: py_in_def list_ex_iff)

lemma ref_checkable_cong:
  "set ids = set ids' \<Longrightarrow> ref_checkable ids r = ref_checkable ids' r"
  by (simp add: ref_checkable_def py_in_cong [of ids ids'])

lemma build_workflow_data_total:
  assumes "checkable fs"
  shows "\<exists>g. build_workflow_data fs = Inr g"
proof -
  let ?ids' = "map task_id (admitted_tasks fs)"
  from assms have c: "\<forall>t \<in> set (admitted_tasks fs). task_checkable ?ids' t"
    by (simp add: checkable_def list_all_iff)
  then have "list_all (\<lambda>fd. admitted fd \<longrightarrow> py_hashable (phase (task_of fd))) fs"
    by (auto simp: list_all_iff admitted_tasks_def task_checkable_def)
  from process_files_total [OF this] obtain ps v c where
    p: "process_files fs ([], 0, 0) = Inr (ps, v, c)" by (metis prod_cases3)
  from process_files_inv [OF p] have "mset (all_tasks ps) = mset (admitted_tasks fs)" by simp
  then have s: "set (all_tasks ps) = set (admitted_tasks fs)" by (rule mset_eq_setD)
  then have si: "set (map task_id (all_tasks ps)) = set ?ids'" by simp
  from c s have "list_all (\<lambda>t. py_hashable (task_id t)) (all_tasks ps)"
    by (auto simp: list_all_iff task_checkable_def)
  from collect_task_ids_total [OF this]
  have i: "all_task_ids ps = Inr (map task_id (all_tasks ps))" by (simp add: all_task_ids_def)
  from c s have "list_all (\<lambda>t. ref_checkable (map task_id (all_tasks ps)) (previous_task t)
                            \<and> ref_checkable (map task_id (all_tasks ps)) (next_task t))
                   (all_tasks ps)"
    by (auto simp: list_all_iff task_checkable_def ref_checkable_cong [OF si])
  from find_orphaned_total [OF this] obtain os where
    f: "find_orphaned (map task_id (all_tasks ps)) (all_tasks ps) = Inr os" by blast
  show ?thesis
    by (simp add: build_workflow_data_def p i f compute_completion_rate_Inr Let_def)
qed

lemma build_workflow_data_checkable:
  assumes "build_workflow_data fs = Inr g"
  shows "checkable fs"
proof -
  let ?ts = "all_tasks (phases g)"
  let ?ids = "map task_id ?ts"
  let ?ids' = "map task_id (admitted_tasks fs)"
  from build_groups(1) [OF assms] have s: "set ?ts = set (admitted_tasks fs)"
    by (rule mset_eq_setD)
  then have si: "set ?ids = set ?ids'" by simp
  have "task_checkable ?ids' t" if t: "t \<in> set ?ts" for t
  proof -
    from t obtain grp where grp: "grp \<in> set (phases g)" "t \<in> set (snd grp)"
      by (auto simp: in_all_tasks)
    obtain k ks where kk: "grp = (k, ks)" by (cases grp)
    from groups_ok_key [OF build_groups(2) [OF assms]] grp kk have "py_eq k (phase t)" by auto
    then have hp: "py_hashable (phase t)" by (simp add: py_eq_hashable)
    from build_ids(2) [OF assms] t have hi: "py_hashable (task_id t)"
      by (simp add: list_all_iff)
    from build_orphaned(2) [OF assms] t obtain pe ne where
      "prev_exists ?ids t = Inr pe" "next_exists ?ids t = Inr ne"
      by (auto simp: list_all_iff)
    then have "ref_checkable ?ids (previous_task t)" "ref_checkable ?ids (next_task t)"
      by (auto simp: prev_exists_def next_exists_def dest: ref_exists_checkable)
    then have "ref_checkable ?ids' (previous_task t)" "ref_checkable ?ids' (next_task t)"
      by (simp_all add: ref_checkable_cong [OF si])
    with hp hi show ?thesis by (simp add: task_checkable_def)
  qed
  with s show ?thesis by (simp add: checkable_def list_all_iff)
qed

lemma ref_exists_known:
  "py_hashable r \<Longrightarrow> py_in r ids \<Longrightarrow> ref_exists pre ids r = Inr True"
  by (simp add: ref_exists_def)

lemma py_in_YStr: "py_in (YStr s) ids \<longleftrightarrow> YStr s \<in> set ids"
  by (auto simp: py_in_def list_ex_iff py_eq_YStr)

lemma ref_exists_YStr:
  "ref_exists pre ids (YStr s) = Inr (s = [] \<or> YStr s \<in> set ids \<or> prefix pre s)"
  by (auto simp: ref_exists_def py_in_YStr)

lemma py_in_self: "py_hashable (task_id t) \<Longrightarrow> t \<in> set ts \<Longrightarrow> py_in (task_id t) (map task_id ts)"
  by (auto simp: py_in_def list_ex_iff intro: py_eq_refl)

subsection \<open>The sample files and their graph\<close>

lemma file_of_complete:
  "pv \<noteq> YNone \<Longrightarrow> nx \<noteq> YNone \<Longrightarrow>
   file_of name (complete_header tid ph pv nx) =
     \<lparr> filename = name, filepath = name,
       yaml_frontmatter = Some (complete_header tid ph pv nx), headers = [],
       yaml_valid = True, yaml_errors = [], missing_required_fields = [] \<rparr>"
  by (simp add: file_of_def analyze_file_def complete_header_def REQUIRED_YAML_FIELDS_def)

lemma task_of_complete:
  "pv \<noteq> YNone \<Longrightarrow> nx \<noteq> YNone \<Longrightarrow>
   task_of (file_of name (complete_header tid ph pv nx)) = sample_task name tid ph pv nx"
  by (simp add: file_of_complete task_of_def mk_task_info_def sample_task_def)
     (simp add: complete_header_def dict_get_def)

lemma admitted_complete:
  "pv \<noteq> YNone \<Longrightarrow> nx \<noteq> YNone \<Longrightarrow> admitted (file_of name (complete_header tid ph pv nx))"
  by (simp add: file_of_complete admitted_def) (simp add: complete_header_def)

lemma validate_missing:
  assumes "field \<in> set REQUIRED_YAML_FIELDS" and "map_of header field = None"
  shows "field \<in> set (validate_yaml_fields (Some header))"
  using assms by (cases "header = []") simp_all

lemma file_of_incomplete:
  assumes "field \<in> set REQUIRED_YAML_FIELDS" and "map_of header field = None"
  shows "yaml_frontmatter (file_of name header) = Some header"
    and "\<not> yaml_valid (file_of name header)"
    and "\<not> admitted (file_of name header)"
proof -
  from validate_missing [OF assms] have "validate_yaml_fields (Some header) \<noteq> []" by auto
  then show "yaml_frontmatter (file_of name header) = Some header"
    and "\<not> yaml_valid (file_of name header)"
    and "\<not> admitted (file_of name header)"
    by (simp_all add: file_of_def analyze_file_def admitted_def Let_def del: validate_yaml_fields.simps)
qed

lemma version_required: "''version'' \<in> set REQUIRED_YAML_FIELDS"
  by (simp add: REQUIRED_YAML_FIELDS_def)

lemma sample_task_simps [simp]:
  "task_id (sample_task name tid ph pv nx) = YStr tid"
  "phase (sample_task name tid ph pv nx) = YStr ph"
  "previous_task (sample_task name tid ph pv nx) = pv"
  "next_task (sample_task name tid ph pv nx) = nx"
  "valid (sample_task name tid ph pv nx) = True"
  by (simp_all add: sample_task_def)

lemma short_header_skipped:
  "\<not> admitted (file_of name [(''task_id'', tid), (''phase'', ph)])"
  by (rule file_of_incomplete(3) [OF version_required]) simp

lemma sample_process:
  "process_files sample_files ([], 0, 0) = Inr (phases sample_graph, 3, 3)"
  by (simp add: sample_files_def sample_graph_def process_files_admit process_files_skip
        process_files_Nil admitted_complete short_header_skipped task_of_complete
        has_connection_def)

lemma sample_run: "build_workflow_data sample_files = Inr sample_graph"
  by (simp add: build_workflow_data_def sample_process all_task_ids_def)
     (simp add: sample_graph_def prev_exists_def next_exists_def ref_exists_YStr
        compute_completion_rate_Inr)

subsection \<open>Admitted files, and the other sample files\<close>

lemma build_filter_admitted:
  "build_workflow_data (filter admitted fs) = build_workflow_data fs"
  by (simp add: build_workflow_data_def process_files_filter)

lemma admitted_in_group:
  assumes "build_workflow_data fs = Inr g" and "fd \<in> set fs" and "admitted fd"
  shows "\<exists>grp \<in> set (phases g). py_eq (fst grp) (phase (task_of fd)) \<and> task_of fd \<in> set (snd grp)"
proof -
  from build_groups(1) [OF assms(1)] have "set (all_tasks (phases g)) = set (admitted_tasks fs)"
    by (rule mset_eq_setD)
  with assms(2,3) have "task_of fd \<in> set (all_tasks (phases g))"
    by (auto simp: admitted_tasks_def)
  then obtain grp where grp: "grp \<in> set (phases g)" "task_of fd \<in> set (snd grp)"
    by (auto simp: in_all_tasks)
  obtain k ts where kt: "grp = (k, ts)" by (cases grp)
  from groups_ok_key [OF build_groups(2) [OF assms(1)]] grp kt
  have "py_eq (fst grp) (phase (task_of fd))" by auto
  with grp show ?thesis by blast
qed

lemma admitted_id_known:
  assumes "build_workflow_data fs = Inr g" and "fd \<in> set fs" and "admitted fd"
  shows "py_in (task_id (task_of fd)) (map task_id (all_tasks (phases g)))"
proof -
  from build_groups(1) [OF assms(1)] have "set (all_tasks (phases g)) = set (admitted_tasks fs)"
    by (rule mset_eq_setD)
  with assms(2,3) have m: "task_of fd \<in> set (all_tasks (phases g))"
    by (auto simp: admitted_tasks_def)
  with build_ids(2) [OF assms(1)] have "py_hashable (task_id (task_of fd))"
    by (simp add: list_all_iff)
  from py_in_self [OF this m] show ?thesis .
qed

lemma admitted_not_parse_failed: "admitted fd \<Longrightarrow> \<not> parse_failed fd"
  by (cases "yaml_frontmatter fd") (auto simp: admitted_def parse_failed_def)

lemma file_of_frontmatter [simp]: "yaml_frontmatter (file_of name header) = Some header"
  by (simp add: file_of_def analyze_file_def Let_def del: validate_yaml_fields.simps)

lemma file_of_errors [simp]: "yaml_errors (file_of name header) = []"
  by (simp add: file_of_def analyze_file_def Let_def del: validate_yaml_fields.simps)

lemma file_of_parsed [simp]: "\<not> parse_failed (file_of name header)"
  by (simp add: parse_failed_def)

lemma short_file_facts:
  "yaml_frontmatter short_file = Some [(''task_id'', YStr ''T3''), (''phase'', YStr ''2'')]"
  "\<not> yaml_valid short_file" "\<not> admitted short_file" "\<not> parse_failed short_file"
  "yaml_errors short_file = []"
proof -
  have m: "map_of [(''task_id'', YStr ''T3''), (''phase'', YStr ''2'')] ''version'' = None"
    by simp
  show "yaml_frontmatter short_file = Some [(''task_id'', YStr ''T3''), (''phase'', YStr ''2'')]"
    by (simp add: short_file_def)
  show "\<not> yaml_valid short_file"
    unfolding short_file_def by (rule file_of_incomplete(2) [OF version_required m])
  show "\<not> admitted short_file"
    unfolding short_file_def by (rule file_of_incomplete(3) [OF version_required m])
  show "\<not> parse_failed short_file" by (simp add: short_file_def)
  show "yaml_errors short_file = []" by (simp add: short_file_def)
qed

lemma short_file_run:
  "build_workflow_data [short_file] =
     Inr \<lparr> phases = [], orphaned = [],
           stats = \<lparr> total_tasks = 0, connected_tasks = 0, orphaned_tasks = 0,
                       phases_count = 0, valid_tasks = 0, completion_rate = 0 \<rparr> \<rparr>"
  by (simp add: build_workflow_data_def process_files_skip short_file_facts process_files_Nil
        all_task_ids_def compute_completion_rate_Inr)

lemma sample_files_admitted:
  "filter admitted sample_files =
     [file_of ''a.md'' (complete_header ''T1'' ''1'' (YStr ''T99'') (YStr ''P5'')),
      file_of ''b.md'' (complete_header ''T2'' ''1'' (YStr ''T2'') (YStr ''T1'')),
      file_of ''d.md'' (complete_header ''T4'' ''2'' (YStr ''P5'') (YStr []))]"
  by (simp add: sample_files_def admitted_complete short_header_skipped)

lemma sample_files_parsed: "filter parse_failed sample_files = []"
  by (simp add: sample_files_def)

lemma header_field_absent:
  "admitted fd \<Longrightarrow> header_field fd key = None \<Longrightarrow> dict_get (the (yaml_frontmatter fd)) key dflt = dflt"
  by (cases "yaml_frontmatter fd") (auto simp: header_field_def dict_get_def admitted_def)

lemma header_field_present:
  "header_field fd key = Some v \<Longrightarrow> dict_get (the (yaml_frontmatter fd)) key dflt = v"
  by (cases "yaml_frontmatter fd") (auto simp: header_field_def dict_get_def)

lemma phase_of_task:
  "admitted fd \<Longrightarrow> header_field fd ''phase'' = None \<Longrightarrow> phase (task_of fd) = YStr ''Unknown''"
  "header_field fd ''phase'' = Some v \<Longrightarrow> phase (task_of fd) = v"
  by (simp_all add: task_of_def mk_task_info_def header_field_absent header_field_present)

lemma empty_phase_run:
  "build_workflow_data [empty_phase_file] =
     Inr \<lparr> phases = [(YStr [], [sample_task ''e.md'' ''T5'' [] (YStr []) (YStr [])])],
           orphaned = [],
           stats = \<lparr> total_tasks = 1, connected_tasks = 0, orphaned_tasks = 0,
                       phases_count = 1, valid_tasks = 1, completion_rate = 100 \<rparr> \<rparr>"
proof -
  have p: "process_files [empty_phase_file] ([], 0, 0) =
             Inr ([(YStr [], [sample_task ''e.md'' ''T5'' [] (YStr []) (YStr [])])], 1, 0)"
    by (simp add: empty_phase_file_def process_files_admit process_files_Nil admitted_complete
          task_of_complete has_connection_def)
  show ?thesis
    by (simp add: build_workflow_data_def p all_task_ids_def)
       (simp add: prev_exists_def next_exists_def ref_exists_YStr compute_completion_rate_Inr)
qed

lemma unphased_file_facts:
  "admitted unphased_file" "header_field unphased_file ''phase'' = None"
  "checkable [unphased_file]"
  by (simp_all add: unphased_file_def admitted_def header_field_def checkable_def
        admitted_tasks_def task_checkable_def ref_checkable_def task_of_def
        mk_task_info_def dict_get_def)

subsection \<open>Files marked valid by the analysis carry every required field\<close>

lemma phase_required: "''phase'' \<in> set REQUIRED_YAML_FIELDS"
  by (simp add: REQUIRED_YAML_FIELDS_def)

lemma validate_empty:
  assumes "validate_yaml_fields yd = []" and "field \<in> set REQUIRED_YAML_FIELDS"
  shows "\<exists>d v. yd = Some d \<and> map_of d field = Some v \<and> v \<noteq> YNone"
proof (cases yd)
  case None
  with assms show ?thesis by auto
next
  case (Some d)
  show ?thesis
  proof (cases "d = []")
    case True
    with Some assms show ?thesis by auto
  next
    case False
    with Some assms(1)
    have "filter (\<lambda>f. map_of d f = None \<or> map_of d f = Some YNone) REQUIRED_YAML_FIELDS = []"
      by simp
    with assms(2) have "\<not> (map_of d field = None \<or> map_of d field = Some YNone)"
      by (simp add: filter_empty_conv)
    with Some show ?thesis by auto
  qed
qed

lemma analyzed_valid_has_phase:
  assumes "yaml_valid (analyze_file name path (yd, errs) hs)"
  shows "\<exists>v. header_field (analyze_file name path (yd, errs) hs) ''phase'' = Some v \<and> v \<noteq> YNone"
proof -
  from assms have "validate_yaml_fields yd = []"
    by (simp add: analyze_file_def Let_def del: validate_yaml_fields.simps)
  from validate_empty [OF this phase_required] obtain d v where
    "yd = Some d" "map_of d ''phase'' = Some v" "v \<noteq> YNone" by blast
  then show ?thesis
    by (simp add: header_field_def analyze_file_def Let_def del: validate_yaml_fields.simps)
qed

subsection \<open>Unresolved references, exact group keys, and two more runs\<close>

lemma py_eq_YNone: "py_eq k YNone \<longleftrightarrow> k = YNone"
  by (cases k) auto

lemma ref_exists_False:
  "ref_exists pre ids r = Inr False \<longleftrightarrow>
     (\<exists>s. r = YStr s \<and> s \<noteq> [] \<and> YStr s \<notin> set ids \<and> \<not> prefix pre s)"
proof (cases r)
  case (YStr s)
  then show ?thesis by (simp add: ref_exists_YStr)
qed (auto simp: ref_exists_def)

lemma admitted_in_exact_group:
  assumes "build_workflow_data fs = Inr g" and "fd \<in> set fs" and "admitted fd"
    and "phase (task_of fd) = YNone \<or> is_str (phase (task_of fd))"
  shows "\<exists>ts. (phase (task_of fd), ts) \<in> set (phases g) \<and> task_of fd \<in> set ts"
proof -
  from admitted_in_group [OF assms(1-3)] obtain grp where
    grp: "grp \<in> set (phases g)" "py_eq (fst grp) (phase (task_of fd))"
         "task_of fd \<in> set (snd grp)" by blast
  from assms(4) grp(2) have "fst grp = phase (task_of fd)"
    by (cases "phase (task_of fd)") (auto simp: py_eq_YNone py_eq_YStr)
  then have "grp = (phase (task_of fd), snd grp)" by (cases grp) simp
  with grp(1,3) show ?thesis by metis
qed

lemma dangling_next_run: "build_workflow_data [dangling_next_file] = Inr dangling_next_graph"
proof -
  have p: "process_files [dangling_next_file] ([], 0, 0) = Inr (phases dangling_next_graph, 1, 1)"
    by (simp add: dangling_next_file_def dangling_next_graph_def process_files_admit
          process_files_Nil admitted_complete task_of_complete has_connection_def)
  show ?thesis
    by (simp add: build_workflow_data_def p all_task_ids_def)
       (simp add: dangling_next_graph_def prev_exists_def next_exists_def ref_exists_YStr
          compute_completion_rate_Inr)
qed

lemma list_phase_facts:
  "yaml_valid list_phase_file" "admitted list_phase_file"
  "header_field list_phase_file ''phase'' = Some (YList [])"
  "phase (task_of list_phase_file) = YList []"
proof -
  show v: "yaml_valid list_phase_file"
    by (simp add: list_phase_file_def file_of_def analyze_file_def REQUIRED_YAML_FIELDS_def)
  then show "admitted list_phase_file"
    by (simp add: admitted_def) (simp add: list_phase_file_def)
  show h: "header_field list_phase_file ''phase'' = Some (YList [])"
    by (simp add: header_field_def list_phase_file_def)
  from phase_of_task(2) [OF h] show "phase (task_of list_phase_file) = YList []" .
qed

lemma list_phase_run: "build_workflow_data [list_phase_file] = Inl TypeError"
  by (simp add: build_workflow_data_def process_files_admit list_phase_facts)

section \<open>The claims\<close>

text \<open>
  C8. For the empty input sequence the builder returns a graph with an empty phase map, an
  empty orphaned collection, and statistics in which \<open>total_tasks\<close>, \<open>connected_tasks\<close>,
  \<open>orphaned_tasks\<close>, \<open>phases_count\<close>, \<open>valid_tasks\<close> and \<open>completion_rate\<close> are all 0.
\<close>

theorem empty_input_graph:
  "build_workflow_data [] =
     Inr \<lparr> phases = [], orphaned = [],
           stats = \<lparr> total_tasks = 0, connected_tasks = 0, orphaned_tasks = 0,
                       phases_count = 0, valid_tasks = 0, completion_rate = 0 \<rparr> \<rparr>"
  by (simp add: build_workflow_data_def process_files_Nil all_task_ids_def
        compute_completion_rate_Inr)

text \<open>
  C2. Reference resolution is asymmetric. A successor reference \<open>next_task = "P5"\<close> is
  resolved (\<open>next_exists\<close> is true) whatever the known identifiers are, because it starts
  with \<open>"P"\<close>; the same string as a predecessor reference is resolved exactly when it is a
  known \<open>task_id\<close>, because the predecessor check only accepts the prefix \<open>"PHASE"\<close>.
\<close>

theorem reference_resolution_asymmetric:
  assumes "next_task t = YStr ''P5''" and "previous_task u = YStr ''P5''"
  shows "next_exists ids t = Inr True \<and> prev_exists ids u = Inr (YStr ''P5'' \<in> set ids)"
  using assms by (simp add: next_exists_def prev_exists_def ref_exists_YStr)

theorem reference_resolution_asymmetric_witness:
  "next_task (sample_task ''a.md'' ''T1'' ''1'' (YStr ''T99'') (YStr ''P5'')) = YStr ''P5''
   \<and> previous_task (sample_task ''d.md'' ''T4'' ''2'' (YStr ''P5'') (YStr [])) = YStr ''P5''
   \<and> all_task_ids (phases sample_graph) = Inr [YStr ''T1'', YStr ''T2'', YStr ''T4'']
   \<and> next_exists [YStr ''T1'', YStr ''T2'', YStr ''T4'']
         (sample_task ''a.md'' ''T1'' ''1'' (YStr ''T99'') (YStr ''P5'')) = Inr True
   \<and> prev_exists [YStr ''T1'', YStr ''T2'', YStr ''T4'']
         (sample_task ''d.md'' ''T4'' ''2'' (YStr ''P5'') (YStr [])) = Inr False"
  using reference_resolution_asymmetric
          [of "sample_task ''a.md'' ''T1'' ''1'' (YStr ''T99'') (YStr ''P5'')"
              "sample_task ''d.md'' ''T4'' ''2'' (YStr ''P5'') (YStr [])"
              "[YStr ''T1'', YStr ''T2'', YStr ''T4'']"]
  by (simp add: all_task_ids_def sample_graph_def)

text \<open>
  C3. In every built graph the phase keys are distinct and each task of the graph lies in
  exactly one phase group. Against the identifiers of all tasks of the graph,
  \<open>prev_exists\<close> is true exactly when \<open>previous_task\<close> is empty, or a known identifier, or a
  string starting with \<open>"PHASE"\<close>, and \<open>next_exists\<close> likewise with the prefix \<open>"P"\<close>. A task
  is in \<open>orphaned\<close> if and only if one of the two is false, that is, if and only if one of
  its references is a non-empty string that is no known identifier and lacks the accepted
  prefix. Orphaned tasks are tasks of the phase groups: \<open>orphaned\<close> is a view, not a
  partition.
\<close>

theorem phase_groups_and_orphans:
  assumes "build_workflow_data fs = Inr g"
  shows "distinct (map fst (phases g))
       \<and> (\<forall>t \<in> set (all_tasks (phases g)). \<exists>!grp. grp \<in> set (phases g) \<and> t \<in> set (snd grp))
       \<and> all_task_ids (phases g) = Inr (map task_id (all_tasks (phases g)))
       \<and> (\<forall>t \<in> set (all_tasks (phases g)).
            prev_exists (map task_id (all_tasks (phases g))) t =
              Inr (\<not> py_truthy (previous_task t)
                   \<or> py_in (previous_task t) (map task_id (all_tasks (phases g)))
                   \<or> (\<exists>s. previous_task t = YStr s \<and> prefix ''PHASE'' s))
            \<and> next_exists (map task_id (all_tasks (phases g))) t =
              Inr (\<not> py_truthy (next_task t)
                   \<or> py_in (next_task t) (map task_id (all_tasks (phases g)))
                   \<or> (\<exists>s. next_task t = YStr s \<and> prefix ''P'' s))
            \<and> (t \<in> set (orphaned g) \<longleftrightarrow>
                 prev_exists (map task_id (all_tasks (phases g))) t = Inr False
                 \<or> next_exists (map task_id (all_tasks (phases g))) t = Inr False)
            \<and> (t \<in> set (orphaned g) \<longleftrightarrow>
                 (\<exists>s. previous_task t = YStr s \<and> s \<noteq> []
                      \<and> YStr s \<notin> set (map task_id (all_tasks (phases g)))
                      \<and> \<not> prefix ''PHASE'' s)
                 \<or> (\<exists>s. next_task t = YStr s \<and> s \<noteq> []
                      \<and> YStr s \<notin> set (map task_id (all_tasks (phases g)))
                      \<and> \<not> prefix ''P'' s)))
       \<and> set (orphaned g) \<subseteq> set (all_tasks (phases g))"
proof -
  let ?ts = "all_tasks (phases g)"
  let ?ids = "map task_id ?ts"
  have d: "distinct (map fst (phases g))"
    by (rule groups_ok_distinct [OF build_groups(2) [OF assms]])
  have u: "\<forall>t \<in> set ?ts. \<exists>!grp. grp \<in> set (phases g) \<and> t \<in> set (snd grp)"
    using build_unique_group [OF assms] by blast
  have i: "all_task_ids (phases g) = Inr ?ids" by (rule build_ids(1) [OF assms])
  have o: "orphaned g = filter (is_orphan ?ids) ?ts" by (rule build_orphaned(1) [OF assms])
  have r: "\<forall>t \<in> set ?ts. (\<exists>pe. prev_exists ?ids t = Inr pe) \<and> (\<exists>ne. next_exists ?ids t = Inr ne)"
    using build_orphaned(2) [OF assms] by (simp add: list_all_iff)
  have m: "prev_exists ?ids t =
              Inr (\<not> py_truthy (previous_task t) \<or> py_in (previous_task t) ?ids
                   \<or> (\<exists>s. previous_task t = YStr s \<and> prefix ''PHASE'' s))
            \<and> next_exists ?ids t =
              Inr (\<not> py_truthy (next_task t) \<or> py_in (next_task t) ?ids
                   \<or> (\<exists>s. next_task t = YStr s \<and> prefix ''P'' s))
            \<and> (t \<in> set (orphaned g) \<longleftrightarrow>
                 prev_exists ?ids t = Inr False \<or> next_exists ?ids t = Inr False)
            \<and> (t \<in> set (orphaned g) \<longleftrightarrow>
                 (\<exists>s. previous_task t = YStr s \<and> s \<noteq> [] \<and> YStr s \<notin> set ?ids
                      \<and> \<not> prefix ''PHASE'' s)
                 \<or> (\<exists>s. next_task t = YStr s \<and> s \<noteq> [] \<and> YStr s \<notin> set ?ids
                      \<and> \<not> prefix ''P'' s))"
    if t: "t \<in> set ?ts" for t
  proof -
    from r t obtain pe ne where e: "prev_exists ?ids t = Inr pe" "next_exists ?ids t = Inr ne"
      by blast
    from e(1) have pv: "pe = (\<not> py_truthy (previous_task t) \<or> py_in (previous_task t) ?ids
                   \<or> (\<exists>s. previous_task t = YStr s \<and> prefix ''PHASE'' s))"
      unfolding prev_exists_def by (rule ref_exists_value)
    from e(2) have nv: "ne = (\<not> py_truthy (next_task t) \<or> py_in (next_task t) ?ids
                   \<or> (\<exists>s. next_task t = YStr s \<and> prefix ''P'' s))"
      unfolding next_exists_def by (rule ref_exists_value)
    have a: "t \<in> set (orphaned g) \<longleftrightarrow>
                 prev_exists ?ids t = Inr False \<or> next_exists ?ids t = Inr False"
      using t by (simp add: o is_orphan_def)
    have b: "prev_exists ?ids t = Inr False \<longleftrightarrow>
               (\<exists>s. previous_task t = YStr s \<and> s \<noteq> [] \<and> YStr s \<notin> set ?ids
                    \<and> \<not> prefix ''PHASE'' s)"
      unfolding prev_exists_def by (rule ref_exists_False)
    have c: "next_exists ?ids t = Inr False \<longleftrightarrow>
               (\<exists>s. next_task t = YStr s \<and> s \<noteq> [] \<and> YStr s \<notin> set ?ids
                    \<and> \<not> prefix ''P'' s)"
      unfolding next_exists_def by (rule ref_exists_False)
    from e pv nv a b c show ?thesis by simp
  qed
  have s: "set (orphaned g) \<subseteq> set ?ts" by (auto simp: o)
  from d u i m s show ?thesis by blast
qed

theorem phase_groups_and_orphans_witness:
  "build_workflow_data [dangling_next_file] = Inr dangling_next_graph
   \<and> sample_task ''x.md'' ''T7'' ''3'' (YStr []) (YStr ''X9'')
       \<in> set (all_tasks (phases dangling_next_graph))
   \<and> all_task_ids (phases dangling_next_graph) = Inr [YStr ''T7'']
   \<and> prev_exists [YStr ''T7''] (sample_task ''x.md'' ''T7'' ''3'' (YStr []) (YStr ''X9'')) = Inr True
   \<and> next_exists [YStr ''T7''] (sample_task ''x.md'' ''T7'' ''3'' (YStr []) (YStr ''X9'')) = Inr False
   \<and> sample_task ''x.md'' ''T7'' ''3'' (YStr []) (YStr ''X9'') \<in> set (orphaned dangling_next_graph)
   \<and> build_workflow_data sample_files = Inr sample_graph
   \<and> distinct (map fst (phases sample_graph))
   \<and> all_task_ids (phases sample_graph) = Inr [YStr ''T1'', YStr ''T2'', YStr ''T4'']
   \<and> set (orphaned sample_graph) \<subseteq> set (all_tasks (phases sample_graph))"
proof -
  have m: "sample_task ''x.md'' ''T7'' ''3'' (YStr []) (YStr ''X9'')
             \<in> set (all_tasks (phases dangling_next_graph))"
    by (simp add: dangling_next_graph_def)
  have i: "map task_id (all_tasks (phases dangling_next_graph)) = [YStr ''T7'']"
    by (simp add: dangling_next_graph_def)
  from phase_groups_and_orphans [OF dangling_next_run] m i
  have "all_task_ids (phases dangling_next_graph) = Inr [YStr ''T7'']
      \<and> prev_exists [YStr ''T7''] (sample_task ''x.md'' ''T7'' ''3'' (YStr []) (YStr ''X9'')) = Inr True
      \<and> next_exists [YStr ''T7''] (sample_task ''x.md'' ''T7'' ''3'' (YStr []) (YStr ''X9'')) = Inr False
      \<and> sample_task ''x.md'' ''T7'' ''3'' (YStr []) (YStr ''X9'') \<in> set (orphaned dangling_next_graph)"
    by (simp add: py_in_YStr)
  moreover from phase_groups_and_orphans [OF sample_run]
  have "distinct (map fst (phases sample_graph))
      \<and> all_task_ids (phases sample_graph) = Inr [YStr ''T1'', YStr ''T2'', YStr ''T4'']
      \<and> set (orphaned sample_graph) \<subseteq> set (all_tasks (phases sample_graph))"
    by (simp add: sample_graph_def)
  ultimately show ?thesis using dangling_next_run sample_run m by simp
qed

text \<open>
  C6. In every built graph \<open>connected_tasks\<close> is the number of tasks of the graph whose
  \<open>previous_task\<close> or \<open>next_task\<close> is non-empty, whether or not the reference resolves. In
  particular a task whose predecessor reference is a non-empty string that is no known
  identifier and does not start with \<open>"PHASE"\<close> is counted as connected and is orphaned too.
\<close>

theorem connected_counts_declared_links:
  assumes "build_workflow_data fs = Inr g"
  shows "connected_tasks (stats g) = length (filter has_connection (all_tasks (phases g)))
       \<and> (\<forall>t \<in> set (all_tasks (phases g)). \<forall>s.
             previous_task t = YStr s \<and> s \<noteq> []
             \<and> YStr s \<notin> set (map task_id (all_tasks (phases g))) \<and> \<not> prefix ''PHASE'' s
             \<longrightarrow> has_connection t \<and> t \<in> set (orphaned g))"
proof -
  let ?ts = "all_tasks (phases g)"
  let ?ids = "map task_id ?ts"
  have "connected_tasks (stats g) = length (filter has_connection (admitted_tasks fs))"
    by (rule build_stats(4) [OF assms])
  also have "\<dots> = length (filter has_connection ?ts)"
    by (rule filter_length_mset [OF build_groups(1) [OF assms, symmetric]])
  finally have c: "connected_tasks (stats g) = length (filter has_connection ?ts)" .
  have o: "orphaned g = filter (is_orphan ?ids) ?ts" by (rule build_orphaned(1) [OF assms])
  have d: "\<forall>t \<in> set ?ts. \<forall>s.
             previous_task t = YStr s \<and> s \<noteq> [] \<and> YStr s \<notin> set ?ids \<and> \<not> prefix ''PHASE'' s
             \<longrightarrow> has_connection t \<and> t \<in> set (orphaned g)"
    by (auto simp: o is_orphan_def has_connection_def prev_exists_def ref_exists_YStr)
  from c d show ?thesis by blast
qed

theorem connected_counts_declared_links_witness:
  "build_workflow_data sample_files = Inr sample_graph
   \<and> connected_tasks (stats sample_graph) = 3
   \<and> length (filter has_connection (all_tasks (phases sample_graph))) = 3
   \<and> sample_task ''a.md'' ''T1'' ''1'' (YStr ''T99'') (YStr ''P5'') \<in> set (all_tasks (phases sample_graph))
   \<and> has_connection (sample_task ''a.md'' ''T1'' ''1'' (YStr ''T99'') (YStr ''P5''))
   \<and> sample_task ''a.md'' ''T1'' ''1'' (YStr ''T99'') (YStr ''P5'') \<in> set (orphaned sample_graph)"
  using connected_counts_declared_links [OF sample_run] sample_run
  by (simp add: sample_graph_def has_connection_def)

text \<open>
  C7. The completion rate is \<open>valid_tasks / total_tasks * 100\<close> when \<open>total_tasks > 0\<close> and
  0 when \<open>total_tasks = 0\<close>; neither its computation nor the builder ever raises a division
  by zero. The quotient is the exact one: in a returned graph both counts are equal, so
  Python's floating-point result is exactly 100 as well.
\<close>

theorem completion_rate_guarded:
  "compute_completion_rate v n = Inr (if n > 0 then real v / real n * 100 else 0)
   \<and> build_workflow_data fs \<noteq> Inl ZeroDivisionError
   \<and> (\<forall>g. build_workflow_data fs = Inr g \<longrightarrow>
         completion_rate (stats g) =
           (if total_tasks (stats g) > 0
            then real (valid_tasks (stats g)) / real (total_tasks (stats g)) * 100 else 0))"
  using build_workflow_data_error [of fs ZeroDivisionError] build_stats(7) [of fs]
  by (auto simp: compute_completion_rate_Inr)

theorem completion_rate_guarded_witness:
  "build_workflow_data sample_files = Inr sample_graph
   \<and> build_workflow_data sample_files \<noteq> Inl ZeroDivisionError
   \<and> completion_rate (stats sample_graph) = 3 / 3 * 100
   \<and> compute_completion_rate 0 0 = Inr 0"
  using completion_rate_guarded [of 0 0 sample_files] sample_run
  by (simp add: sample_graph_def)

text \<open>
  C10. In every graph the builder returns, \<open>valid_tasks\<close> equals \<open>total_tasks\<close>, since every
  task admitted past the entry filter is marked valid; the completion rate is therefore 100
  when there is a task and 0 otherwise, never a value in between.
\<close>

theorem admitted_tasks_all_valid:
  assumes "build_workflow_data fs = Inr g"
  shows "valid_tasks (stats g) = total_tasks (stats g)
       \<and> completion_rate (stats g) = (if total_tasks (stats g) > 0 then 100 else 0)
       \<and> (\<forall>t \<in> set (all_tasks (phases g)). valid t)"
proof -
  have e: "valid_tasks (stats g) = total_tasks (stats g)"
    by (simp add: build_stats(2,3) [OF assms])
  have r: "completion_rate (stats g) = (if total_tasks (stats g) > 0 then 100 else 0)"
    by (simp add: build_stats(7) [OF assms] e)
  from build_groups(1) [OF assms] have "set (all_tasks (phases g)) = set (admitted_tasks fs)"
    by (rule mset_eq_setD)
  then have v: "\<forall>t \<in> set (all_tasks (phases g)). valid t"
    by (auto simp: admitted_tasks_def valid_task_of)
  from e r v show ?thesis by blast
qed

theorem admitted_tasks_all_valid_witness:
  "build_workflow_data sample_files = Inr sample_graph
   \<and> valid_tasks (stats sample_graph) = total_tasks (stats sample_graph)
   \<and> total_tasks (stats sample_graph) = 3
   \<and> completion_rate (stats sample_graph) = 100"
  using admitted_tasks_all_valid [OF sample_run] sample_run
  by (simp add: sample_graph_def)

text \<open>
  C9. A task of the graph whose \<open>previous_task\<close> (or \<open>next_task\<close>) equals its own \<open>task_id\<close>
  has that reference resolved as existing; it is then orphaned only on account of the other
  reference.
\<close>

theorem self_reference_accepted:
  assumes "build_workflow_data fs = Inr g" and "t \<in> set (all_tasks (phases g))"
  shows "(previous_task t = task_id t \<longrightarrow>
            prev_exists (map task_id (all_tasks (phases g))) t = Inr True
            \<and> (t \<in> set (orphaned g) \<longleftrightarrow>
                 next_exists (map task_id (all_tasks (phases g))) t = Inr False))
       \<and> (next_task t = task_id t \<longrightarrow>
            next_exists (map task_id (all_tasks (phases g))) t = Inr True
            \<and> (t \<in> set (orphaned g) \<longleftrightarrow>
                 prev_exists (map task_id (all_tasks (phases g))) t = Inr False))"
proof -
  let ?ts = "all_tasks (phases g)"
  let ?ids = "map task_id ?ts"
  from build_ids(2) [OF assms(1)] assms(2) have h: "py_hashable (task_id t)"
    by (simp add: list_all_iff)
  from py_in_self [OF h assms(2)] have k: "py_in (task_id t) ?ids" .
  have self: "ref_exists pre ?ids (task_id t) = Inr True" for pre
    using h k by (simp add: ref_exists_def)
  have o: "t \<in> set (orphaned g) \<longleftrightarrow> is_orphan ?ids t"
    using assms(2) by (simp add: build_orphaned(1) [OF assms(1)])
  show ?thesis
    by (auto simp: o is_orphan_def prev_exists_def next_exists_def self)
qed

theorem self_reference_accepted_witness:
  "build_workflow_data sample_files = Inr sample_graph
   \<and> sample_task ''b.md'' ''T2'' ''1'' (YStr ''T2'') (YStr ''T1'') \<in> set (all_tasks (phases sample_graph))
   \<and> previous_task (sample_task ''b.md'' ''T2'' ''1'' (YStr ''T2'') (YStr ''T1''))
       = task_id (sample_task ''b.md'' ''T2'' ''1'' (YStr ''T2'') (YStr ''T1''))
   \<and> prev_exists (map task_id (all_tasks (phases sample_graph)))
        (sample_task ''b.md'' ''T2'' ''1'' (YStr ''T2'') (YStr ''T1'')) = Inr True
   \<and> sample_task ''b.md'' ''T2'' ''1'' (YStr ''T2'') (YStr ''T1'') \<notin> set (orphaned sample_graph)"
proof -
  have m: "sample_task ''b.md'' ''T2'' ''1'' (YStr ''T2'') (YStr ''T1'')
             \<in> set (all_tasks (phases sample_graph))"
    by (simp add: sample_graph_def)
  have n: "sample_task ''b.md'' ''T2'' ''1'' (YStr ''T2'') (YStr ''T1'') \<notin> set (orphaned sample_graph)"
    by (simp add: sample_graph_def sample_task_def)
  from self_reference_accepted [OF sample_run m] sample_run m n show ?thesis by simp
qed

text \<open>
  C1, as stated, fails: \<open>short_file\<close> carries a parsed header and no parse error, it only
  lacks required fields, and the builder leaves it out of the graph altogether.
\<close>

theorem failed_validation_skipped_counterexample:
  "yaml_frontmatter short_file = Some [(''task_id'', YStr ''T3''), (''phase'', YStr ''2'')]
   \<and> yaml_errors short_file = []
   \<and> \<not> yaml_valid short_file
   \<and> build_workflow_data [short_file] =
       Inr \<lparr> phases = [], orphaned = [],
             stats = \<lparr> total_tasks = 0, connected_tasks = 0, orphaned_tasks = 0,
                         phases_count = 0, valid_tasks = 0, completion_rate = 0 \<rparr> \<rparr>"
  by (simp add: short_file_facts short_file_run)

text \<open>
  C1, amended. The files that take part in the graph are exactly those marked valid whose
  header is a non-empty mapping: dropping all other files does not change the result, the
  tasks of the graph are the tasks of those files, each of them lies in the group of its
  phase, its \<open>task_id\<close> is in the resolution universe, and \<open>total_tasks\<close> counts them. A
  file that failed required-field validation is skipped like one that failed to parse.
\<close>

theorem only_valid_files_enter_graph:
  assumes "build_workflow_data fs = Inr g"
  shows "build_workflow_data (filter admitted fs) = Inr g
       \<and> mset (all_tasks (phases g)) = mset (map task_of (filter admitted fs))
       \<and> all_task_ids (phases g) = Inr (map task_id (all_tasks (phases g)))
       \<and> total_tasks (stats g) = length (filter admitted fs)
       \<and> (\<forall>fd \<in> set fs. admitted fd \<longrightarrow>
            (\<exists>grp \<in> set (phases g).
               py_eq (fst grp) (phase (task_of fd)) \<and> task_of fd \<in> set (snd grp))
            \<and> py_in (task_id (task_of fd)) (map task_id (all_tasks (phases g))))"
proof -
  have a: "build_workflow_data (filter admitted fs) = Inr g"
    by (simp add: build_filter_admitted assms)
  have b: "mset (all_tasks (phases g)) = mset (map task_of (filter admitted fs))"
    using build_groups(1) [OF assms] by (simp add: admitted_tasks_def)
  have c: "all_task_ids (phases g) = Inr (map task_id (all_tasks (phases g)))"
    by (rule build_ids(1) [OF assms])
  have d: "total_tasks (stats g) = length (filter admitted fs)"
    by (rule build_stats(2) [OF assms])
  have e: "\<forall>fd \<in> set fs. admitted fd \<longrightarrow>
            (\<exists>grp \<in> set (phases g).
               py_eq (fst grp) (phase (task_of fd)) \<and> task_of fd \<in> set (snd grp))
            \<and> py_in (task_id (task_of fd)) (map task_id (all_tasks (phases g)))"
    using admitted_in_group [OF assms] admitted_id_known [OF assms] by blast
  from a b c d e show ?thesis by blast
qed

theorem only_valid_files_enter_graph_witness:
  "build_workflow_data sample_files = Inr sample_graph
   \<and> build_workflow_data (filter admitted sample_files) = Inr sample_graph
   \<and> length (filter admitted sample_files) = 3
   \<and> total_tasks (stats sample_graph) = length (filter admitted sample_files)
   \<and> all_task_ids (phases sample_graph) = Inr [YStr ''T1'', YStr ''T2'', YStr ''T4'']"
  using only_valid_files_enter_graph [OF sample_run] sample_run
  by (simp add: sample_files_admitted) (simp add: sample_graph_def)

text \<open>
  C4, as stated, fails: all four sample files were parsed, yet the groups hold three tasks.
\<close>

theorem group_sizes_counterexample:
  "build_workflow_data sample_files = Inr sample_graph
   \<and> sum_list (map (\<lambda>p. length (snd p)) (phases sample_graph)) = 3
   \<and> total_tasks (stats sample_graph) = 3
   \<and> length sample_files - length (filter parse_failed sample_files) = 4"
  by (simp add: sample_run sample_files_parsed) (simp add: sample_graph_def sample_files_def)

text \<open>
  C4, amended. The sizes of the phase groups sum to the number of input files that are
  marked valid and carry a non-empty header; \<open>total_tasks\<close> is that sum, and it is at most
  the number of files that did not fail to parse.
\<close>

theorem phase_group_sizes_sum:
  assumes "build_workflow_data fs = Inr g"
  shows "sum_list (map (\<lambda>p. length (snd p)) (phases g)) = length (filter admitted fs)
       \<and> total_tasks (stats g) = sum_list (map (\<lambda>p. length (snd p)) (phases g))
       \<and> length (filter admitted fs) \<le> length fs - length (filter parse_failed fs)"
proof -
  have t: "total_tasks (stats g) = sum_list (map (\<lambda>p. length (snd p)) (phases g))"
    by (rule build_stats(1) [OF assms])
  have a: "total_tasks (stats g) = length (filter admitted fs)"
    by (rule build_stats(2) [OF assms])
  have "length (filter admitted fs) \<le> length (filter (\<lambda>fd. \<not> parse_failed fd) fs)"
    by (induction fs) (auto dest: admitted_not_parse_failed)
  moreover have "length (filter (\<lambda>fd. \<not> parse_failed fd) fs)
                   = length fs - length (filter parse_failed fs)"
    using sum_length_filter_compl [of parse_failed fs] by simp
  ultimately have l: "length (filter admitted fs) \<le> length fs - length (filter parse_failed fs)"
    by simp
  from t a l show ?thesis by simp
qed

theorem phase_group_sizes_sum_witness:
  "build_workflow_data sample_files = Inr sample_graph
   \<and> sum_list (map (\<lambda>p. length (snd p)) (phases sample_graph)) = length (filter admitted sample_files)
   \<and> length (filter admitted sample_files) = 3
   \<and> total_tasks (stats sample_graph) = 3"
  using phase_group_sizes_sum [OF sample_run] sample_run
  by (simp add: sample_files_admitted)

text \<open>
  C5, as stated, fails twice: a file whose phase is the empty string is grouped under the
  empty string, and no group \<open>"Unknown"\<close> exists; and a file whose phase is the empty list
  aborts the build with a \<^verbatim>\<open>TypeError\<close>.
\<close>

theorem empty_phase_counterexample:
  "header_field empty_phase_file ''phase'' = Some (YStr [])
   \<and> yaml_valid empty_phase_file
   \<and> build_workflow_data [empty_phase_file] =
       Inr \<lparr> phases = [(YStr [], [sample_task ''e.md'' ''T5'' [] (YStr []) (YStr [])])],
             orphaned = [],
             stats = \<lparr> total_tasks = 1, connected_tasks = 0, orphaned_tasks = 0,
                         phases_count = 1, valid_tasks = 1, completion_rate = 100 \<rparr> \<rparr>
   \<and> header_field list_phase_file ''phase'' = Some (YList [])
   \<and> yaml_valid list_phase_file
   \<and> build_workflow_data [list_phase_file] = Inl TypeError"
proof -
  have "header_field empty_phase_file ''phase'' = Some (YStr [])"
    by (simp add: header_field_def empty_phase_file_def) (simp add: complete_header_def)
  moreover have "yaml_valid empty_phase_file"
    by (simp add: empty_phase_file_def file_of_complete)
  ultimately show ?thesis using empty_phase_run list_phase_facts(1,3) list_phase_run by simp
qed

text \<open>
  C5, amended. The build returns a graph exactly when every admitted file has a phase and
  an identifier that can be hashed and references that are empty, or hashable and then a
  known identifier or a string; a phase that is absent, \<open>None\<close> or a string, the empty one
  included, can be hashed and so never aborts the build. In every returned graph an
  admitted file lies in the group whose key equals its phase as a dictionary key: the group
  \<open>"Unknown"\<close> when its header has no \<open>phase\<close> key, and the group of the value itself when
  the phase is a string, empty or not, or \<open>None\<close>.
\<close>

theorem missing_phase_grouped_unknown:
  "((\<exists>g. build_workflow_data fs = Inr g) \<longleftrightarrow> checkable fs)
   \<and> (\<forall>fd. admitted fd \<longrightarrow>
         header_field fd ''phase'' = None \<or> header_field fd ''phase'' = Some YNone
         \<or> (\<exists>s. header_field fd ''phase'' = Some (YStr s)) \<longrightarrow>
         py_hashable (phase (task_of fd)))
   \<and> (\<forall>g. build_workflow_data fs = Inr g \<longrightarrow>
         (\<forall>fd \<in> set fs. admitted fd \<longrightarrow>
            (\<exists>grp \<in> set (phases g).
               py_eq (fst grp) (phase (task_of fd)) \<and> task_of fd \<in> set (snd grp))
            \<and> (header_field fd ''phase'' = None \<longrightarrow>
                 (\<exists>ts. (YStr ''Unknown'', ts) \<in> set (phases g) \<and> task_of fd \<in> set ts))
            \<and> (\<forall>s. header_field fd ''phase'' = Some (YStr s) \<longrightarrow>
                 (\<exists>ts. (YStr s, ts) \<in> set (phases g) \<and> task_of fd \<in> set ts))
            \<and> (header_field fd ''phase'' = Some YNone \<longrightarrow>
                 (\<exists>ts. (YNone, ts) \<in> set (phases g) \<and> task_of fd \<in> set ts))))"
proof -
  have a: "(\<exists>g. build_workflow_data fs = Inr g) \<longleftrightarrow> checkable fs"
    using build_workflow_data_total [of fs] build_workflow_data_checkable [of fs] by blast
  have b: "py_hashable (phase (task_of fd))"
    if "admitted fd"
      and "header_field fd ''phase'' = None \<or> header_field fd ''phase'' = Some YNone
           \<or> (\<exists>s. header_field fd ''phase'' = Some (YStr s))" for fd
    using that phase_of_task(1) [of fd] phase_of_task(2) [of fd] by auto
  have c: "(\<exists>grp \<in> set (phases g).
               py_eq (fst grp) (phase (task_of fd)) \<and> task_of fd \<in> set (snd grp))
            \<and> (header_field fd ''phase'' = None \<longrightarrow>
                 (\<exists>ts. (YStr ''Unknown'', ts) \<in> set (phases g) \<and> task_of fd \<in> set ts))
            \<and> (\<forall>s. header_field fd ''phase'' = Some (YStr s) \<longrightarrow>
                 (\<exists>ts. (YStr s, ts) \<in> set (phases g) \<and> task_of fd \<in> set ts))
            \<and> (header_field fd ''phase'' = Some YNone \<longrightarrow>
                 (\<exists>ts. (YNone, ts) \<in> set (phases g) \<and> task_of fd \<in> set ts))"
    if g: "build_workflow_data fs = Inr g" and fd: "fd \<in> set fs" "admitted fd" for g fd
  proof -
    note grp = admitted_in_group [OF g fd]
    have u: "\<exists>ts. (YStr ''Unknown'', ts) \<in> set (phases g) \<and> task_of fd \<in> set ts"
      if "header_field fd ''phase'' = None"
      using admitted_in_exact_group [OF g fd] phase_of_task(1) [OF fd(2) that] by simp
    have s: "\<exists>ts. (YStr s, ts) \<in> set (phases g) \<and> task_of fd \<in> set ts"
      if "header_field fd ''phase'' = Some (YStr s)" for s
      using admitted_in_exact_group [OF g fd] phase_of_task(2) [OF that] by simp
    have n: "\<exists>ts. (YNone, ts) \<in> set (phases g) \<and> task_of fd \<in> set ts"
      if "header_field fd ''phase'' = Some YNone"
      using admitted_in_exact_group [OF g fd] phase_of_task(2) [OF that] by simp
    from grp u s n show ?thesis by blast
  qed
  from a b c show ?thesis by blast
qed

theorem missing_phase_grouped_unknown_witness:
  "checkable [unphased_file]
   \<and> admitted unphased_file
   \<and> header_field unphased_file ''phase'' = None
   \<and> (\<exists>g. build_workflow_data [unphased_file] = Inr g
          \<and> (\<exists>ts. (YStr ''Unknown'', ts) \<in> set (phases g) \<and> task_of unphased_file \<in> set ts))"
proof -
  note t = missing_phase_grouped_unknown [of "[unphased_file]"]
  from t unphased_file_facts(3) obtain g where g: "build_workflow_data [unphased_file] = Inr g"
    by blast
  from t g unphased_file_facts(1,2)
  have "\<exists>ts. (YStr ''Unknown'', ts) \<in> set (phases g) \<and> task_of unphased_file \<in> set ts"
    by auto
  with g unphased_file_facts show ?thesis by blast
qed

end
